theory Spec2Isabelle
  imports Main
begin

section \<open>Strings and digits\<close>

text \<open>
  A TypeScript string is a sequence of code units; it is modelled as a \<open>string\<close>
  (a list of characters). The program only ever asks of a code unit whether it is one of
  the ten ASCII digits (the regular expression classes \<open>\d\<close> and \<open>\D\<close>) or whether
  it is the literal dot of a pattern.
\<close>

definition isDigit :: "char \<Rightarrow> bool" where
  \<comment> \<open>the class \<open>\d\<close>: one of \<open>0\<close> .. \<open>9\<close>\<close>
  "isDigit c \<longleftrightarrow> c \<in> set ''0123456789''"

definition stripNonDigits :: "string \<Rightarrow> string" where
  \<comment> \<open>\<open>.replace(/\D/g, '')\<close>: every code unit that is not a digit is deleted\<close>
  "stripNonDigits s = filter isDigit s"

section \<open>The regular expressions of the masks\<close>

text \<open>
  Every pattern of \<open>maskCep\<close> and \<open>maskCpf\<close> is a fixed sequence of atoms, each
  matching exactly one code unit: \<open>\d\<close> or an escaped literal. A pattern therefore
  matches at a position iff the code units from there on agree with the atoms one by one.
\<close>

datatype atom = D | L char

fun matches :: "atom list \<Rightarrow> string \<Rightarrow> bool" where
  "matches [] s = True"
| "matches (a # as) [] = False"
| "matches (D # as) (c # cs) = (isDigit c \<and> matches as cs)"
| "matches (L x # as) (c # cs) = (c = x \<and> matches as cs)"

text \<open>
  Every replacement string of the source writes the captured groups back in order with
  one separator put between two of them, so a replacement is the matched text with
  \<open>sep\<close> inserted \<open>k\<close> code units after the start of the match.
  \<open>replaceAnchored\<close> is \<open>String.prototype.replace\<close> with a pattern that begins with
  \<open>^\<close> (it can only match at index 0); \<open>replaceFirst\<close> is \<open>replace\<close> with an
  unanchored pattern and no \<open>g\<close> flag: the leftmost match is replaced, and only that one.
  Without a match the string is returned unchanged.
\<close>

definition replaceAnchored :: "atom list \<Rightarrow> nat \<Rightarrow> char \<Rightarrow> string \<Rightarrow> string" where
  "replaceAnchored pat k sep s = (if matches pat s then take k s @ [sep] @ drop k s else s)"

fun replaceFirst :: "atom list \<Rightarrow> nat \<Rightarrow> char \<Rightarrow> string \<Rightarrow> string" where
  "replaceFirst pat k sep [] = []"
| "replaceFirst pat k sep (c # cs) =
     (if matches pat (c # cs) then take k (c # cs) @ [sep] @ drop k (c # cs)
      else c # replaceFirst pat k sep cs)"

section \<open>The masks\<close>

definition maskCep :: "string \<Rightarrow> string" where
  \<comment> \<open>\<open>cep.replace(/\D/g, '').replace(/^(\d{5})(\d)/, '$1-$2').slice(0, 9)\<close>\<close>
  "maskCep cep =
     take 9 (replaceAnchored [D, D, D, D, D, D] 5 (CHR ''-'') (stripNonDigits cep))"

definition maskCpf :: "string \<Rightarrow> string" where
  \<comment> \<open>\<open>cpf.replace(/\D/g, '').replace(/^(\d{3})(\d)/, '$1.$2')
        .replace(/^(\d{3})\.(\d{3})(\d)/, '$1.$2.$3')
        .replace(/\.(\d{3})(\d)/, '.$1-$2').slice(0, 14)\<close>\<close>
  "maskCpf cpf =
     take 14
       (replaceFirst [L (CHR ''.''), D, D, D, D] 4 (CHR ''-'')
         (replaceAnchored [D, D, D, L (CHR ''.''), D, D, D, D] 7 (CHR ''.'')
           (replaceAnchored [D, D, D, D] 3 (CHR ''.'')
             (stripNonDigits cpf))))"

section \<open>Reading a mask back\<close>

definition isSeparator :: "char \<Rightarrow> bool" where
  "isSeparator c \<longleftrightarrow> c = CHR ''.'' \<or> c = CHR ''-''"

definition stripSeparators :: "string \<Rightarrow> string" where
  \<comment> \<open>the punctuation of a mask removed, everything else kept\<close>
  "stripSeparators s = filter (\<lambda>c. \<not> isSeparator c) s"

section \<open>The masks as the specification words them\<close>

text \<open>
  The postal-code algorithm in the specification's words: remove the non-digits; with 6
  or more digits left, put a hyphen immediately after digit 5; cut the result to 9
  characters. It is compared with \<open>maskCep\<close> in claim C8.
\<close>

definition maskPostalCode_spec :: "string \<Rightarrow> string" where
  "maskPostalCode_spec s =
     (let ds = stripNonDigits s;
          hyphenated = (if 6 \<le> length ds then take 5 ds @ ''-'' @ drop 5 ds else ds)
      in take 9 hyphenated)"

text \<open>
  The tax-ID rendering as claim C7 words it: the digit sequence capped at 11 digits, a
  dot after the 3rd and after the 6th digit once that digit is present, a hyphen after
  the 9th digit once that digit is present.
\<close>

definition maskTaxId_stated :: "string \<Rightarrow> string" where
  "maskTaxId_stated s =
     (let ds = take 11 (stripNonDigits s); n = length ds
      in take 3 ds @ (if 3 \<le> n then ''.'' else []) @
         take 3 (drop 3 ds) @ (if 6 \<le> n then ''.'' else []) @
         take 3 (drop 6 ds) @ (if 9 \<le> n then ''-'' else []) @
         drop 9 ds)"

text \<open>
  The same rendering with every separator waiting for the digit that follows it: the
  first dot is written once a 4th digit is present, the second once a 7th is, the
  hyphen once a 10th is.
\<close>

definition maskTaxId_progressive :: "string \<Rightarrow> string" where
  "maskTaxId_progressive s =
     (let ds = take 11 (stripNonDigits s); n = length ds
      in take 3 ds @ (if 4 \<le> n then ''.'' else []) @
         take 3 (drop 3 ds) @ (if 7 \<le> n then ''.'' else []) @
         take 3 (drop 6 ds) @ (if 10 \<le> n then ''-'' else []) @
         drop 9 ds)"

section \<open>The checksum validator\<close>

text \<open>
  Modelled from the spec: \<open>validateCPF\<close>, which \<open>registerSchema\<close> imports from
  \<open>utils/validateCpf\<close>, is not among the sources; only its call is. The definitions of
  this section follow section 4.2 of the specification (\<open>isValidTaxId\<close>) word by word.
\<close>

definition digitValue :: "char \<Rightarrow> nat" where
  \<comment> \<open>Modelled from the spec: the number a digit character stands for\<close>
  "digitValue c = of_char c - 48"

definition checkDigit :: "nat \<Rightarrow> nat" where
  \<comment> \<open>Modelled from the spec: \<open>remainder = sum mod 11\<close>; the expected check digit is
      \<open>0\<close> if \<open>remainder < 2\<close>, else \<open>11 - remainder\<close>\<close>
  "checkDigit wsum =
     (let remainder = wsum mod 11 in if remainder < 2 then 0 else 11 - remainder)"

definition firstCheckDigit :: "string \<Rightarrow> nat" where
  \<comment> \<open>Modelled from the spec: digits 1 to 9, digit \<open>i\<close> (1-indexed) times \<open>11 - i\<close>\<close>
  "firstCheckDigit ds =
     checkDigit (\<Sum>i\<leftarrow>[1..<10]. digitValue (ds ! (i - 1)) * (11 - i))"

definition secondCheckDigit :: "string \<Rightarrow> nat" where
  \<comment> \<open>Modelled from the spec: digits 1 to 10, the same weights shifted by one\<close>
  "secondCheckDigit ds =
     checkDigit (\<Sum>i\<leftarrow>[1..<11]. digitValue (ds ! (i - 1)) * (12 - i))"

definition allIdentical :: "string \<Rightarrow> bool" where
  \<comment> \<open>Modelled from the spec: every digit equals the first one\<close>
  "allIdentical ds \<longleftrightarrow> list_all (\<lambda>c. c = hd ds) ds"

definition isValidTaxId :: "string \<Rightarrow> bool" where
  \<comment> \<open>Modelled from the spec: strip the non-digits; reject a length other than 11;
      reject 11 identical digits; then both check digits must match\<close>
  "isValidTaxId input =
     (let ds = stripNonDigits input
      in if length ds \<noteq> 11 then False
         else if allIdentical ds then False
         else firstCheckDigit ds = digitValue (ds ! 9) \<and>
              secondCheckDigit ds = digitValue (ds ! 10))"

text \<open>
  The two check digits as claim C2 words them, with the weights written out:
  \<open>10,9,8,7,6,5,4,3,2\<close> over digits 1 to 9 against the digit at position 10, and
  \<open>11,10,9,8,7,6,5,4,3,2\<close> over digits 1 to 10 against the digit at position 11.
\<close>

definition weighted :: "nat list \<Rightarrow> string \<Rightarrow> nat" where
  "weighted ws ds = sum_list (map2 (\<lambda>w c. w * digitValue c) ws ds)"

definition passesCheckDigits :: "string \<Rightarrow> bool" where
  "passesCheckDigits ds \<longleftrightarrow>
     (let r1 = weighted [10, 9, 8, 7, 6, 5, 4, 3, 2] ds mod 11;
          r2 = weighted [11, 10, 9, 8, 7, 6, 5, 4, 3, 2] ds mod 11
      in (if r1 < 2 then 0 else 11 - r1) = digitValue (ds ! 9) \<and>
         (if r2 < 2 then 0 else 11 - r2) = digitValue (ds ! 10))"

section \<open>Closed forms of the separator passes\<close>

text \<open>
  The three separator passes of \<open>maskCpf\<close>, without the stripping before them and the
  \<open>slice\<close> after them.
\<close>

definition cpfSeparators :: "string \<Rightarrow> string" where
  "cpfSeparators ds =
     replaceFirst [L (CHR ''.''), D, D, D, D] 4 (CHR ''-'')
       (replaceAnchored [D, D, D, L (CHR ''.''), D, D, D, D] 7 (CHR ''.'')
         (replaceAnchored [D, D, D, D] 3 (CHR ''.'') ds))"

text \<open>
  What the passes compute on a sequence of digits, by the number of digits: these two
  functions are proof devices (the lemmas \<open>cpfSeparators_closed\<close> and
  \<open>cepSeparator_closed\<close> relate them to the regular expressions).
\<close>

fun groupCpf :: "string \<Rightarrow> string" where
  "groupCpf (a # b # c # d # e # f # g # h # i # j # rest) =
     [a, b, c, CHR ''.'', d, e, f, CHR ''.'', g, h, i, CHR ''-'', j] @ rest"
| "groupCpf (a # b # c # d # e # f # g # rest) =
     [a, b, c, CHR ''.'', d, e, f, CHR ''.'', g] @ rest"
| "groupCpf (a # b # c # d # rest) = [a, b, c, CHR ''.'', d] @ rest"
| "groupCpf s = s"

fun groupCep :: "string \<Rightarrow> string" where
  "groupCep (a # b # c # d # e # f # rest) = [a, b, c, d, e, CHR ''-'', f] @ rest"
| "groupCep s = s"

text \<open>
  A string of digits and separators in which every separator is followed by a digit.
\<close>

fun punctuated :: "string \<Rightarrow> bool" where
  "punctuated [] = True"
| "punctuated [c] = isDigit c"
| "punctuated (c # d # cs) =
     ((isDigit c \<or> isSeparator c \<and> isDigit d) \<and> punctuated (d # cs))"

section \<open>Digits and separators\<close>

lemma dot_not_digit [simp]: "\<not> isDigit (CHR ''.'')"
  by (simp add: isDigit_def)

lemma hyphen_not_digit [simp]: "\<not> isDigit (CHR ''-'')"
  by (simp add: isDigit_def)

lemma digit_not_dot [simp]: "isDigit c \<Longrightarrow> c \<noteq> CHR ''.''"
  by auto

lemma digit_not_hyphen [simp]: "isDigit c \<Longrightarrow> c \<noteq> CHR ''-''"
  by auto

lemma digit_not_separator [simp]: "isDigit c \<Longrightarrow> \<not> isSeparator c"
  by (auto simp: isSeparator_def)

lemma stripNonDigits_all: "list_all isDigit (stripNonDigits s)"
  by (simp add: stripNonDigits_def list_all_iff)

lemma stripNonDigits_id: "list_all isDigit ds \<Longrightarrow> stripNonDigits ds = ds"
  by (simp add: stripNonDigits_def list_all_iff)

lemma stripSeparators_id: "list_all isDigit ds \<Longrightarrow> stripSeparators ds = ds"
  by (induction ds) (simp_all add: stripSeparators_def)

lemma all_digits_take: "list_all isDigit ds \<Longrightarrow> list_all isDigit (take n ds)"
  by (auto simp: list_all_iff dest: in_set_takeD)

section \<open>The masks on a digit sequence\<close>

lemma cpfSeparators_closed: "list_all isDigit ds \<Longrightarrow> cpfSeparators ds = groupCpf ds"
  by (cases ds rule: groupCpf.cases) (simp_all add: cpfSeparators_def replaceAnchored_def)

lemma cepSeparator_closed:
  "list_all isDigit ds \<Longrightarrow> replaceAnchored [D, D, D, D, D, D] 5 (CHR ''-'') ds = groupCep ds"
  by (cases ds rule: groupCep.cases) (simp_all add: replaceAnchored_def)

lemma maskCpf_closed: "maskCpf s = take 14 (groupCpf (stripNonDigits s))"
  using cpfSeparators_closed [OF stripNonDigits_all, of s]
  by (simp add: maskCpf_def cpfSeparators_def)

lemma maskCep_closed: "maskCep s = take 9 (groupCep (stripNonDigits s))"
  using cepSeparator_closed [OF stripNonDigits_all, of s]
  by (simp add: maskCep_def)

lemma groupCpf_digits:
  "list_all isDigit ds \<Longrightarrow> stripNonDigits (take 14 (groupCpf ds)) = take 11 ds"
proof (cases ds rule: groupCpf.cases)
  case (1 a b c d e f g h i j rest)
  assume "list_all isDigit ds"
  with 1 have "stripNonDigits (take 1 rest) = take 1 rest"
    by (simp add: stripNonDigits_id all_digits_take)
  with 1 \<open>list_all isDigit ds\<close> show ?thesis by (simp add: stripNonDigits_def)
qed (simp_all add: stripNonDigits_def)

lemma groupCpf_no_separators:
  "list_all isDigit ds \<Longrightarrow> stripSeparators (take 14 (groupCpf ds)) = take 11 ds"
proof (cases ds rule: groupCpf.cases)
  case (1 a b c d e f g h i j rest)
  assume "list_all isDigit ds"
  with 1 have "stripSeparators (take 1 rest) = take 1 rest"
    by (simp add: stripSeparators_id all_digits_take)
  with 1 \<open>list_all isDigit ds\<close> show ?thesis
    by (simp add: stripSeparators_def isSeparator_def)
qed (simp_all add: stripSeparators_def isSeparator_def)

lemma groupCep_digits:
  "list_all isDigit ds \<Longrightarrow> stripNonDigits (take 9 (groupCep ds)) = take 8 ds"
proof (cases ds rule: groupCep.cases)
  case (1 a b c d e f rest)
  assume "list_all isDigit ds"
  with 1 have "stripNonDigits (take 2 rest) = take 2 rest"
    by (simp add: stripNonDigits_id all_digits_take)
  with 1 \<open>list_all isDigit ds\<close> show ?thesis by (simp add: stripNonDigits_def)
qed (simp_all add: stripNonDigits_def)

lemma maskCpf_digits: "stripNonDigits (maskCpf s) = take 11 (stripNonDigits s)"
  by (simp add: maskCpf_closed groupCpf_digits stripNonDigits_all)

lemma maskCep_digits: "stripNonDigits (maskCep s) = take 8 (stripNonDigits s)"
  by (simp add: maskCep_closed groupCep_digits stripNonDigits_all)

lemma groupCpf_take: "take 14 (groupCpf (take 11 ds)) = take 14 (groupCpf ds)"
  by (cases ds rule: groupCpf.cases) simp_all

lemma groupCep_take: "take 9 (groupCep (take 8 ds)) = take 9 (groupCep ds)"
  by (cases ds rule: groupCep.cases) simp_all

lemma separators [simp]: "isSeparator (CHR ''.'')" "isSeparator (CHR ''-'')"
  by (simp_all add: isSeparator_def)

lemma digits_no_hyphen: "list_all isDigit ds \<Longrightarrow> CHR ''-'' \<notin> set ds"
  by (auto simp: list_all_iff)

lemma digits_nth_no_hyphen:
  "list_all isDigit ds \<Longrightarrow> i < length ds \<Longrightarrow> ds ! i \<noteq> CHR ''-''"
  by (auto simp: list_all_length)

lemma digits_filter_hyphen:
  "list_all isDigit ds \<Longrightarrow> filter (\<lambda>c. c = CHR ''-'') ds = []"
  by (induction ds) auto

text \<open>
  The two shapes of a postal-code mask: bare digits, or five digits, a hyphen and one to
  three digits.
\<close>

lemma maskCep_shape:
  "(length (stripNonDigits s) \<le> 5 \<and> maskCep s = stripNonDigits s) \<or>
   (6 \<le> length (stripNonDigits s) \<and>
    (\<exists>pre post. maskCep s = pre @ CHR ''-'' # post \<and> length pre = 5 \<and>
       list_all isDigit pre \<and> list_all isDigit post \<and> post \<noteq> [] \<and> length post \<le> 3))"
proof -
  have all: "list_all isDigit (stripNonDigits s)" by (rule stripNonDigits_all)
  show ?thesis
  proof (cases "stripNonDigits s" rule: groupCep.cases)
    case (1 a b c d e f rest)
    with all have "maskCep s = [a, b, c, d, e] @ CHR ''-'' # (f # take 2 rest) \<and>
        length [a, b, c, d, e] = 5 \<and> list_all isDigit [a, b, c, d, e] \<and>
        list_all isDigit (f # take 2 rest) \<and> f # take 2 rest \<noteq> [] \<and>
        length (f # take 2 rest) \<le> 3"
      by (simp add: maskCep_closed all_digits_take)
    then have "\<exists>pre post. maskCep s = pre @ CHR ''-'' # post \<and> length pre = 5 \<and>
       list_all isDigit pre \<and> list_all isDigit post \<and> post \<noteq> [] \<and> length post \<le> 3"
      by blast
    with 1 show ?thesis by simp
  qed (simp_all add: maskCep_closed)
qed

section \<open>Separators are followed by digits\<close>

lemma punctuated_nth:
  "punctuated xs \<Longrightarrow> i < length xs \<Longrightarrow>
     (isDigit (xs ! i) \<or> isSeparator (xs ! i)) \<and>
     (isSeparator (xs ! i) \<longrightarrow> Suc i < length xs \<and> isDigit (xs ! Suc i))"
proof (induction xs arbitrary: i rule: punctuated.induct)
  case 1
  then show ?case by simp
next
  case (2 c)
  then show ?case by simp
next
  case (3 c d cs)
  show ?case
  proof (cases i)
    case 0
    with 3 show ?thesis by auto
  next
    case (Suc k)
    with 3 show ?thesis by simp
  qed
qed

lemma punctuated_last: "punctuated xs \<Longrightarrow> xs \<noteq> [] \<Longrightarrow> isDigit (last xs)"
  by (induction xs rule: punctuated.induct) auto

lemma punctuated_digits: "list_all isDigit ds \<Longrightarrow> punctuated ds"
  by (induction ds rule: punctuated.induct) auto

lemma punctuated_maskCpf: "punctuated (maskCpf s)"
proof -
  have all: "list_all isDigit (stripNonDigits s)" by (rule stripNonDigits_all)
  show ?thesis
  proof (cases "stripNonDigits s" rule: groupCpf.cases)
    case (1 a b c d e f g h i j rest)
    with all show ?thesis
      by (cases rest) (simp_all add: maskCpf_closed)
  qed (use all in \<open>simp_all add: maskCpf_closed\<close>)
qed

lemma punctuated_maskCep: "punctuated (maskCep s)"
proof -
  have all: "list_all isDigit (stripNonDigits s)" by (rule stripNonDigits_all)
  show ?thesis
  proof (cases "stripNonDigits s" rule: groupCep.cases)
    case (1 a b c d e f rest)
    with all have "punctuated (f # take 2 rest)"
      by (simp add: punctuated_digits all_digits_take)
    with 1 all show ?thesis
      by (simp add: maskCep_closed)
  qed (use all in \<open>simp_all add: maskCep_closed\<close>)
qed

section \<open>The check digits with the weights written out\<close>

lemma upt_1_10: "[Suc 0..<10] = [1, 2, 3, 4, 5, 6, 7, 8, 9]"
  by (simp add: upt_rec)

lemma upt_1_11: "[Suc 0..<11] = [1, 2, 3, 4, 5, 6, 7, 8, 9, 10]"
  by (simp add: upt_rec)

lemma length_11:
  assumes "length ds = 11"
  obtains a b c d e f g h i j k where "ds = [a, b, c, d, e, f, g, h, i, j, k]"
proof -
  from assms have "\<exists>a b c d e f g h i j k. ds = [a, b, c, d, e, f, g, h, i, j, k]"
    by (simp add: eval_nat_numeral length_Suc_conv) blast
  with that show thesis by (elim exE)
qed

lemma checks_explicit:
  assumes "length ds = 11"
  shows "(firstCheckDigit ds = digitValue (ds ! 9) \<and>
          secondCheckDigit ds = digitValue (ds ! 10)) \<longleftrightarrow> passesCheckDigits ds"
proof -
  from assms obtain a b c d e f g h i j k where "ds = [a, b, c, d, e, f, g, h, i, j, k]"
    by (rule length_11)
  then show ?thesis
    by (simp add: firstCheckDigit_def secondCheckDigit_def passesCheckDigits_def weighted_def
        checkDigit_def upt_1_10 upt_1_11 Let_def mult.commute)
qed

lemma isValidTaxId_unfold:
  "isValidTaxId s \<longleftrightarrow>
     length (stripNonDigits s) = 11 \<and> \<not> allIdentical (stripNonDigits s) \<and>
     passesCheckDigits (stripNonDigits s)"
  using checks_explicit [of "stripNonDigits s"] by (auto simp: isValidTaxId_def Let_def)

lemma digitValue_digit: "isDigit c \<Longrightarrow> digitValue c < 10"
  by (auto simp: isDigit_def digitValue_def)

lemma replicate_11: "replicate 11 c = [c, c, c, c, c, c, c, c, c, c, c]"
  by (simp add: numeral_eq_Suc)

lemma below_10: "(n::nat) < 10 \<Longrightarrow> n \<in> {0, 1, 2, 3, 4, 5, 6, 7, 8, 9}"
  by auto

text \<open>
  Eleven equal digits \<open>n\<close> give the weighted sums \<open>54 * n\<close> and \<open>65 * n\<close>, and both
  have the check digit \<open>n\<close>.
\<close>

lemma repeated_check:
  assumes "(n::nat) < 10"
  shows "(if 54 * n mod 11 < 2 then 0 else 11 - 54 * n mod 11) = n"
    and "(if 65 * n mod 11 < 2 then 0 else 11 - 65 * n mod 11) = n"
  using below_10 [OF assms] by auto

lemma repeated_passes:
  assumes "isDigit c"
  shows "passesCheckDigits (replicate 11 c)"
  using repeated_check [OF digitValue_digit [OF assms]]
  by (simp add: passesCheckDigits_def weighted_def Let_def replicate_11)

lemma repeated_identical: "allIdentical (replicate n c)"
  by (cases n) (simp_all add: allIdentical_def list_all_iff)

section \<open>Properties of the masks\<close>

text \<open>
  Claim C1. For every string \<open>s\<close>, the mask \<open>maskCpf s\<close> with its separators removed is
  the digit sequence of \<open>s\<close> cut to its first 11 digits (all of them when there are
  fewer): no digit is dropped, moved or invented. The same holds when everything that is
  not a digit is removed from the mask.
\<close>

theorem maskCpf_keeps_digits:
  "stripSeparators (maskCpf s) = take 11 (stripNonDigits s) \<and>
   stripNonDigits (maskCpf s) = take 11 (stripNonDigits s)"
  by (simp add: maskCpf_closed groupCpf_digits groupCpf_no_separators stripNonDigits_all)

theorem maskCpf_keeps_digits_witness:
  "stripSeparators (maskCpf ''cpf: 529.982.247-25 (x9)'') = ''52998224725'' \<and>
   stripSeparators (maskCpf ''5a29'') = ''529''"
  using maskCpf_keeps_digits [of "''cpf: 529.982.247-25 (x9)''"]
    maskCpf_keeps_digits [of "''5a29''"]
  by (simp add: stripNonDigits_def isDigit_def)

text \<open>
  Claim C3. Both masks are idempotent: masking a mask again returns it unchanged.
\<close>

theorem mask_idempotent:
  "maskCpf (maskCpf s) = maskCpf s \<and> maskCep (maskCep s) = maskCep s"
proof
  have "maskCpf (maskCpf s) = take 14 (groupCpf (take 11 (stripNonDigits s)))"
    by (simp only: maskCpf_closed [of "maskCpf s"] maskCpf_digits)
  also have "\<dots> = maskCpf s"
    by (simp only: groupCpf_take maskCpf_closed)
  finally show "maskCpf (maskCpf s) = maskCpf s" .
  have "maskCep (maskCep s) = take 9 (groupCep (take 8 (stripNonDigits s)))"
    by (simp only: maskCep_closed [of "maskCep s"] maskCep_digits)
  also have "\<dots> = maskCep s"
    by (simp only: groupCep_take maskCep_closed)
  finally show "maskCep (maskCep s) = maskCep s" .
qed

text \<open>
  Claim C9. Both masks depend only on the digit sequence of their input: masking a
  string and masking its digit sequence give the same result.
\<close>

theorem mask_depends_on_digits:
  "maskCpf s = maskCpf (stripNonDigits s) \<and> maskCep s = maskCep (stripNonDigits s)"
  by (simp add: maskCpf_def maskCep_def stripNonDigits_def)

text \<open>
  Claim C4. For every string \<open>s\<close>, \<open>maskCep s\<close> has at most 9 characters and at most
  one hyphen; a hyphen, when there is one, is at index 5; and the digits of the mask are
  the first 8 digits of \<open>s\<close> (all of them when there are fewer).
\<close>

theorem maskCep_shape_bounds:
  "length (maskCep s) \<le> 9 \<and>
   length (filter (\<lambda>c. c = CHR ''-'') (maskCep s)) \<le> 1 \<and>
   (\<forall>i < length (maskCep s). maskCep s ! i = CHR ''-'' \<longrightarrow> i = 5) \<and>
   stripNonDigits (maskCep s) = take 8 (stripNonDigits s)"
proof -
  have all: "list_all isDigit (stripNonDigits s)" by (rule stripNonDigits_all)
  from maskCep_shape [of s] show ?thesis
  proof (elim disjE conjE exE)
    assume "length (stripNonDigits s) \<le> 5" and "maskCep s = stripNonDigits s"
    with all show ?thesis
      by (simp add: digits_filter_hyphen digits_nth_no_hyphen stripNonDigits_id)
  next
    fix pre post
    assume m: "maskCep s = pre @ CHR ''-'' # post"
      and len: "length pre = 5" "length post \<le> 3"
      and dig: "list_all isDigit pre" "list_all isDigit post"
    have idx: "\<forall>i < length (maskCep s). maskCep s ! i = CHR ''-'' \<longrightarrow> i = 5"
    proof (intro allI impI)
      fix i assume "i < length (maskCep s)" and h: "maskCep s ! i = CHR ''-''"
      show "i = 5"
      proof (rule ccontr)
        assume "i \<noteq> 5"
        then consider "i < 5" | "5 < i" by linarith
        then show False
        proof cases
          case 1
          with m len h dig show False
            by (simp add: nth_append digits_nth_no_hyphen)
        next
          case 2
          then obtain k where "i = 5 + Suc k" by (metis less_iff_Suc_add add_Suc_right)
          with m len h dig \<open>i < length (maskCep s)\<close> show False
            by (simp add: nth_append digits_nth_no_hyphen)
        qed
      qed
    qed
    have "length (maskCep s) \<le> 9"
      using m len by simp
    moreover have "length (filter (\<lambda>c. c = CHR ''-'') (maskCep s)) \<le> 1"
      using m dig by (simp add: digits_filter_hyphen)
    ultimately show ?thesis
      using idx maskCep_digits [of s] by blast
  qed
qed

theorem maskCep_shape_bounds_witness:
  "5 < length (maskCep ''CEP 01310-930123'') \<and>
   maskCep ''CEP 01310-930123'' ! 5 = CHR ''-'' \<and>
   length (maskCep ''CEP 01310-930123'') \<le> 9 \<and>
   stripNonDigits (maskCep ''CEP 01310-930123'') = take 8 (stripNonDigits ''CEP 01310-930123'')"
proof -
  have h: "5 < length (maskCep ''CEP 01310-930123'') \<and>
      maskCep ''CEP 01310-930123'' ! 5 = CHR ''-''"
    by (simp add: maskCep_def stripNonDigits_def isDigit_def replaceAnchored_def)
  note b = maskCep_shape_bounds [of "''CEP 01310-930123''"]
  from h b [THEN conjunct1] b [THEN conjunct2, THEN conjunct2, THEN conjunct2]
  show ?thesis by blast
qed

text \<open>
  Claim C8. \<open>maskCep\<close> is the specification's algorithm: strip the non-digits, put a
  hyphen immediately after digit 5 exactly when there are 6 or more digits, cut to 9
  characters. With 5 digits or fewer the mask has no hyphen; with 6 or more its first six
  characters are the first five digits and the hyphen. \<open>maskCep "01310930"\<close> is
  \<open>"01310-930"\<close> and \<open>maskCep "0131"\<close> is \<open>"0131"\<close>.
\<close>

theorem maskCep_algorithm:
  "maskCep s = maskPostalCode_spec s \<and>
   (length (stripNonDigits s) \<le> 5 \<longrightarrow> CHR ''-'' \<notin> set (maskCep s)) \<and>
   (6 \<le> length (stripNonDigits s) \<longrightarrow>
      take 6 (maskCep s) = take 5 (stripNonDigits s) @ ''-'') \<and>
   maskCep ''01310930'' = ''01310-930'' \<and> maskCep ''0131'' = ''0131''"
proof -
  have all: "list_all isDigit (stripNonDigits s)" by (rule stripNonDigits_all)
  have 1: "maskCep s = maskPostalCode_spec s"
    by (cases "stripNonDigits s" rule: groupCep.cases)
       (simp_all add: maskCep_closed maskPostalCode_spec_def)
  have 2: "length (stripNonDigits s) \<le> 5 \<longrightarrow> CHR ''-'' \<notin> set (maskCep s)"
    using all by (simp add: 1 maskPostalCode_spec_def Let_def digits_no_hyphen)
  have 3: "6 \<le> length (stripNonDigits s) \<longrightarrow>
      take 6 (maskCep s) = take 5 (stripNonDigits s) @ ''-''"
    by (simp add: 1 maskPostalCode_spec_def Let_def)
  have 4: "maskCep ''01310930'' = ''01310-930'' \<and> maskCep ''0131'' = ''0131''"
    by (simp add: maskCep_def stripNonDigits_def isDigit_def replaceAnchored_def)
  from 1 2 3 4 show ?thesis by blast
qed

theorem maskCep_algorithm_witness:
  "length (stripNonDigits ''0131-0'') \<le> 5 \<and> CHR ''-'' \<notin> set (maskCep ''0131-0'') \<and>
   6 \<le> length (stripNonDigits ''013109'') \<and>
   take 6 (maskCep ''013109'') = take 5 (stripNonDigits ''013109'') @ ''-''"
proof -
  have h: "length (stripNonDigits ''0131-0'') \<le> 5 \<and> 6 \<le> length (stripNonDigits ''013109'')"
    by (simp add: stripNonDigits_def isDigit_def)
  from h maskCep_algorithm [of "''0131-0''", THEN conjunct2, THEN conjunct1]
    maskCep_algorithm [of "''013109''", THEN conjunct2, THEN conjunct2, THEN conjunct1]
  show ?thesis by blast
qed

text \<open>
  Claim C7, as stated, fails: with exactly three digits the third digit is present, so
  the stated rendering writes a dot after it, but \<open>maskCpf\<close> returns the three bare
  digits. Each pattern of \<open>maskCpf\<close> ends in a \<open>(\d)\<close> group, so a separator is
  written only once the digit after it is there.
\<close>

theorem maskCpf_stated_counterexample:
  "maskCpf ''111'' = ''111'' \<and> maskTaxId_stated ''111'' = ''111.'' \<and>
   maskCpf ''111'' \<noteq> maskTaxId_stated ''111''"
  by (simp add: maskCpf_def maskTaxId_stated_def stripNonDigits_def isDigit_def
      replaceAnchored_def)

text \<open>
  Claim C7, amended. \<open>maskCpf\<close> renders the digit sequence capped at 11 digits
  progressively as \<open>NNN.NNN.NNN-NN\<close>: a dot is inserted after the 3rd digit once a 4th
  digit is present and after the 6th digit once a 7th is present, a hyphen after the 9th
  digit once a 10th is present, and the output never exceeds 14 characters;
  \<open>maskCpf "11144477735"\<close> is \<open>"111.444.777-35"\<close>.
\<close>

theorem maskCpf_progressive:
  "maskCpf s = maskTaxId_progressive s \<and> length (maskCpf s) \<le> 14 \<and>
   maskCpf ''11144477735'' = ''111.444.777-35''"
proof -
  have 1: "maskCpf s = maskTaxId_progressive s"
    by (cases "stripNonDigits s" rule: groupCpf.cases)
       (simp_all add: maskCpf_closed maskTaxId_progressive_def Let_def)
  have 2: "length (maskCpf s) \<le> 14" by (simp add: maskCpf_def)
  have 3: "maskCpf ''11144477735'' = ''111.444.777-35''"
    by (simp add: maskCpf_def stripNonDigits_def isDigit_def replaceAnchored_def)
  from 1 2 3 show ?thesis by blast
qed

theorem maskCpf_progressive_witness:
  "maskCpf ''111'' = maskTaxId_progressive ''111'' \<and>
   maskTaxId_progressive ''111'' = ''111'' \<and>
   maskCpf ''1114447'' = maskTaxId_progressive ''1114447'' \<and>
   maskTaxId_progressive ''1114447'' = ''111.444.7''"
proof -
  have h: "maskTaxId_progressive ''111'' = ''111'' \<and>
      maskTaxId_progressive ''1114447'' = ''111.444.7''"
    by (simp add: maskTaxId_progressive_def stripNonDigits_def isDigit_def Let_def)
  from h maskCpf_progressive [of "''111''", THEN conjunct1]
    maskCpf_progressive [of "''1114447''", THEN conjunct1]
  show ?thesis by blast
qed

text \<open>
  Claim C10. For every string \<open>s\<close>, every character of \<open>maskCpf s\<close> and of
  \<open>maskCep s\<close> is a digit, a dot or a hyphen, and every separator is immediately
  followed by a digit; so a mask that is not empty ends in a digit. A sequence of
  exactly 3 digits is masked by \<open>maskCpf\<close> to the 3 bare digits, and a sequence of
  exactly 5 digits by \<open>maskCep\<close> to the 5 bare digits.
\<close>

theorem mask_alphabet:
  "(\<forall>i < length (maskCpf s).
      (isDigit (maskCpf s ! i) \<or> isSeparator (maskCpf s ! i)) \<and>
      (isSeparator (maskCpf s ! i) \<longrightarrow>
         Suc i < length (maskCpf s) \<and> isDigit (maskCpf s ! Suc i))) \<and>
   (\<forall>i < length (maskCep s).
      (isDigit (maskCep s ! i) \<or> isSeparator (maskCep s ! i)) \<and>
      (isSeparator (maskCep s ! i) \<longrightarrow>
         Suc i < length (maskCep s) \<and> isDigit (maskCep s ! Suc i))) \<and>
   (maskCpf s \<noteq> [] \<longrightarrow> isDigit (last (maskCpf s))) \<and>
   (maskCep s \<noteq> [] \<longrightarrow> isDigit (last (maskCep s))) \<and>
   (length (stripNonDigits s) = 3 \<longrightarrow> maskCpf s = stripNonDigits s) \<and>
   (length (stripNonDigits s) = 5 \<longrightarrow> maskCep s = stripNonDigits s)"
proof (intro conjI)
  show "length (stripNonDigits s) = 3 \<longrightarrow> maskCpf s = stripNonDigits s"
    by (cases "stripNonDigits s" rule: groupCpf.cases) (simp_all add: maskCpf_closed)
  show "length (stripNonDigits s) = 5 \<longrightarrow> maskCep s = stripNonDigits s"
    by (cases "stripNonDigits s" rule: groupCep.cases) (simp_all add: maskCep_closed)
qed (use punctuated_nth [OF punctuated_maskCpf] punctuated_nth [OF punctuated_maskCep]
       punctuated_last [OF punctuated_maskCpf] punctuated_last [OF punctuated_maskCep]
     in blast)+

theorem mask_alphabet_witness:
  "3 < length (maskCpf ''1114'') \<and> isSeparator (maskCpf ''1114'' ! 3) \<and>
   isDigit (maskCpf ''1114'' ! Suc 3) \<and>
   5 < length (maskCep ''013109'') \<and> isSeparator (maskCep ''013109'' ! 5) \<and>
   isDigit (maskCep ''013109'' ! Suc 5) \<and>
   length (stripNonDigits ''1.2.3'') = 3 \<and> maskCpf ''1.2.3'' = stripNonDigits ''1.2.3''"
proof -
  have h: "3 < length (maskCpf ''1114'') \<and> isSeparator (maskCpf ''1114'' ! 3) \<and>
      5 < length (maskCep ''013109'') \<and> isSeparator (maskCep ''013109'' ! 5) \<and>
      length (stripNonDigits ''1.2.3'') = 3"
    by (simp add: maskCpf_def maskCep_def stripNonDigits_def isDigit_def replaceAnchored_def)
  note a = spec [where x = "3::nat", OF mask_alphabet [of "''1114''", THEN conjunct1]]
  note b = spec [where x = "5::nat",
      OF mask_alphabet [of "''013109''", THEN conjunct2, THEN conjunct1]]
  note c = mask_alphabet [of "''1.2.3''", THEN conjunct2, THEN conjunct2, THEN conjunct2,
      THEN conjunct2, THEN conjunct1]
  from h a b c show ?thesis by blast
qed

section \<open>Properties of the validator\<close>

text \<open>
  Claim C2, as stated, fails on the validator of the specification: the digit sequence
  of \<open>111.111.111-11\<close> passes both check digits, and \<open>isValidTaxId\<close> rejects it (the
  rejection rules run before the checksum).
\<close>

theorem isValidTaxId_iff_counterexample:
  "passesCheckDigits (stripNonDigits ''111.111.111-11'') \<and>
   \<not> isValidTaxId ''111.111.111-11''"
proof -
  have "stripNonDigits ''111.111.111-11'' = ''11111111111''"
    by (simp add: stripNonDigits_def isDigit_def)
  then show ?thesis
    by (simp add: isValidTaxId_unfold allIdentical_def passesCheckDigits_def weighted_def
        digitValue_def)
qed

text \<open>
  Claim C2, amended. \<open>isValidTaxId s\<close> is true if and only if the digit sequence of
  \<open>s\<close> has exactly 11 digits, they are not all identical, and it passes both modulo-11
  check digits (weights \<open>10..2\<close> over digits 1 to 9 against position 10, weights
  \<open>11..2\<close> over digits 1 to 10 against position 11, expected digit \<open>0\<close> if the
  remainder is below 2, else 11 minus the remainder). \<open>isValidTaxId "111.444.777-35"\<close>
  is true and \<open>isValidTaxId "123.456.789-00"\<close> is false.
\<close>

theorem isValidTaxId_iff:
  "(isValidTaxId s \<longleftrightarrow>
      length (stripNonDigits s) = 11 \<and> \<not> allIdentical (stripNonDigits s) \<and>
      passesCheckDigits (stripNonDigits s)) \<and>
   isValidTaxId ''111.444.777-35'' \<and> \<not> isValidTaxId ''123.456.789-00''"
proof -
  have ex: "stripNonDigits ''111.444.777-35'' = ''11144477735''"
    "stripNonDigits ''123.456.789-00'' = ''12345678900''"
    by (simp_all add: stripNonDigits_def isDigit_def)
  have 2: "isValidTaxId ''111.444.777-35''"
    by (simp add: isValidTaxId_unfold ex allIdentical_def passesCheckDigits_def weighted_def
        digitValue_def)
  have 3: "\<not> isValidTaxId ''123.456.789-00''"
    by (simp add: isValidTaxId_unfold ex allIdentical_def passesCheckDigits_def weighted_def
        digitValue_def)
  from isValidTaxId_unfold [of s] 2 3 show ?thesis by blast
qed

theorem isValidTaxId_iff_witness:
  "length (stripNonDigits ''529.982.247-25'') = 11 \<and>
   \<not> allIdentical (stripNonDigits ''529.982.247-25'') \<and>
   passesCheckDigits (stripNonDigits ''529.982.247-25'') \<and>
   isValidTaxId ''529.982.247-25''"
proof -
  have h: "length (stripNonDigits ''529.982.247-25'') = 11 \<and>
      \<not> allIdentical (stripNonDigits ''529.982.247-25'') \<and>
      passesCheckDigits (stripNonDigits ''529.982.247-25'')"
  proof -
    have "stripNonDigits ''529.982.247-25'' = ''52998224725''"
      by (simp add: stripNonDigits_def isDigit_def)
    then show ?thesis
      by (simp add: allIdentical_def passesCheckDigits_def weighted_def digitValue_def)
  qed
  from h isValidTaxId_iff [of "''529.982.247-25''", THEN conjunct1] show ?thesis by blast
qed

text \<open>
  Claim C5. \<open>isValidTaxId\<close> is false for every input whose digit sequence is 11 times
  the same digit, although such a sequence passes both check digits.
\<close>

theorem repeated_digits_rejected:
  "stripNonDigits s = replicate 11 c \<Longrightarrow>
     \<not> isValidTaxId s \<and> passesCheckDigits (stripNonDigits s)"
proof -
  assume h: "stripNonDigits s = replicate 11 c"
  have "c \<in> set (stripNonDigits s)" by (simp add: h)
  then have "isDigit c" by (simp add: stripNonDigits_def)
  then show ?thesis
    by (simp add: h isValidTaxId_def repeated_identical repeated_passes)
qed

theorem repeated_digits_rejected_witness:
  "stripNonDigits ''111.111.111-11'' = replicate 11 (CHR ''1'') \<and>
   \<not> isValidTaxId ''111.111.111-11'' \<and>
   passesCheckDigits (stripNonDigits ''111.111.111-11'')"
proof -
  have h: "stripNonDigits ''111.111.111-11'' = replicate 11 (CHR ''1'')"
    by (simp add: stripNonDigits_def isDigit_def replicate_11)
  from h repeated_digits_rejected [OF h] show ?thesis by blast
qed

text \<open>
  Claim C6. \<open>isValidTaxId\<close> returns a boolean for every string: it is false whenever
  the digit sequence does not have exactly 11 digits (so for \<open>"abc"\<close> and for the empty
  string), and two strings with the same digit sequence, such as a masked and a raw tax
  ID, get the same verdict.
\<close>

theorem isValidTaxId_total:
  "(length (stripNonDigits s) \<noteq> 11 \<longrightarrow> isValidTaxId s = False) \<and>
   (stripNonDigits s = stripNonDigits t \<longrightarrow> isValidTaxId s = isValidTaxId t) \<and>
   isValidTaxId ''abc'' = False \<and> isValidTaxId [] = False"
proof -
  have "isValidTaxId ''abc'' = False \<and> isValidTaxId [] = False"
    by (simp add: isValidTaxId_def stripNonDigits_def isDigit_def)
  then show ?thesis by (simp add: isValidTaxId_def)
qed

theorem isValidTaxId_total_witness:
  "length (stripNonDigits ''12.345'') \<noteq> 11 \<and> isValidTaxId ''12.345'' = False \<and>
   stripNonDigits ''111.444.777-35'' = stripNonDigits ''11144477735'' \<and>
   isValidTaxId ''111.444.777-35'' = isValidTaxId ''11144477735''"
proof -
  have h: "length (stripNonDigits ''12.345'') \<noteq> 11 \<and>
      stripNonDigits ''111.444.777-35'' = stripNonDigits ''11144477735''"
    by (simp add: stripNonDigits_def isDigit_def)
  from h isValidTaxId_total [of "''12.345''" "''12.345''", THEN conjunct1]
    isValidTaxId_total [of "''111.444.777-35''" "''11144477735''",
      THEN conjunct2, THEN conjunct1]
  show ?thesis by blast
qed

end
